theory Spec2Isabelle
  imports Complex_Main "HOL-Library.Multiset" "HOL-Library.Char_ord" "HOL-Library.List_Lexorder"
begin

section \<open>JavaScript values and built-ins used by the digest pipeline\<close>

text \<open>
  The repository is JavaScript (ES modules). The model uses
  \<^item> \<open>string\<close> for JavaScript strings, one \<open>char\<close> per UTF-16 code unit; only code
    units below 256 exist in the type, so \<open>length\<close> is \<open>.length\<close> on such strings and
    the order of \<open>HOL-Library.List_Lexorder\<close> over \<open>HOL-Library.Char_ord\<close> is the
    \<open><\<close> of JavaScript on them;
  \<^item> \<open>jsval\<close> for the values \<open>JSON.parse\<close> can produce, plus \<open>undefined\<close> for a
    property that is not there; numbers are the integers (a JSON number with a fraction
    or an exponent is outside the type);
  \<^item> \<open>exn + 'a\<close> for code that can throw: \<open>Inl\<close> is the thrown \<open>Error\<close> object.
  Configuration values read with \<open>Number(process.env.X || d)\<close> are taken after that
  conversion. The display cap and \<open>maxBullets\<close> are \<open>int\<close> (they can be zero or
  negative). The retry budget and the base delay are doubles: see \<open>maxnum\<close> and \<open>jsnum\<close>
  below.
\<close>

datatype jsval =
    JUndefined
  | JNull
  | JBool bool
  | JNum int
  | JStr string
  | JArr "jsval list"
  | JObj "(string \<times> jsval) list"

text \<open>An \<open>Error\<close> object: its \<open>name\<close> and its \<open>message\<close>.\<close>

datatype exn = Exn (exnName: string) (exnMessage: string)

definition TypeError_toPrimitive :: exn where
  "TypeError_toPrimitive = Exn ''TypeError'' ''Cannot convert object to primitive value''"

text \<open>\<open>Error.prototype.toString\<close>, which \<open>String(err)\<close> calls.\<close>

definition errToString :: "exn \<Rightarrow> string" where
  "errToString e =
     (if exnName e = [] then exnMessage e
      else if exnMessage e = [] then exnName e
      else exnName e @ '': '' @ exnMessage e)"

text \<open>\<open>xs.map(f)\<close> where \<open>f\<close> can throw: the first exception, left to right, ends the map.\<close>

fun mapE :: "('a \<Rightarrow> exn + 'b) \<Rightarrow> 'a list \<Rightarrow> exn + 'b list" where
  "mapE f [] = Inr []"
| "mapE f (x # xs) =
     (case f x of
        Inl e \<Rightarrow> Inl e
      | Inr y \<Rightarrow> (case mapE f xs of Inl e \<Rightarrow> Inl e | Inr ys \<Rightarrow> Inr (y # ys)))"

subsection \<open>Truthiness, property access, \<open>||\<close>\<close>

fun truthy :: "jsval \<Rightarrow> bool" where
  "truthy JUndefined = False"
| "truthy JNull = False"
| "truthy (JBool b) = b"
| "truthy (JNum n) = (n \<noteq> 0)"
| "truthy (JStr s) = (s \<noteq> [])"
| "truthy (JArr xs) = True"
| "truthy (JObj kvs) = True"

text \<open>
  \<open>v?.name\<close> for the property names the code reads (\<open>transcripts\<close>, \<open>text\<close>, \<open>lang\<close>,
  \<open>one_liner\<close>, \<open>key_points\<close>, \<open>who_should_watch\<close>): none of them is a built-in property
  of a string, number, boolean or array, so only an object's own property gives a value.
  An object is the association list of its own properties.
\<close>

fun getProp :: "jsval \<Rightarrow> string \<Rightarrow> jsval" where
  "getProp (JObj kvs) name = (case map_of kvs name of None \<Rightarrow> JUndefined | Some v \<Rightarrow> v)"
| "getProp v name = JUndefined"

definition jsOr :: "jsval \<Rightarrow> jsval \<Rightarrow> jsval" where
  "jsOr a b = (if truthy a then a else b)"

datatype jstype = TUndefined | TObject | TBoolean | TNumber | TString

fun typeof :: "jsval \<Rightarrow> jstype" where
  "typeof JUndefined = TUndefined"
| "typeof JNull = TObject"
| "typeof (JBool b) = TBoolean"
| "typeof (JNum n) = TNumber"
| "typeof (JStr s) = TString"
| "typeof (JArr xs) = TObject"
| "typeof (JObj kvs) = TObject"

subsection \<open>Strings: whitespace, \<open>trim\<close>, \<open>replace(/\s+/g, " ")\<close>, \<open>replaceAll\<close>, \<open>join\<close>\<close>

text \<open>The code units below 256 that \<open>\s\<close> and \<open>trim\<close> treat as white space:
  TAB, LF, VT, FF, CR, SPACE and NBSP.\<close>

definition isSpace :: "char \<Rightarrow> bool" where
  "isSpace c = (c \<in> set [CHR 0x09, CHR 0x0A, CHR 0x0B, CHR 0x0C, CHR 0x0D, CHR 0x20, CHR 0xA0])"

definition trim :: "string \<Rightarrow> string" where
  "trim s = rev (dropWhile isSpace (rev (dropWhile isSpace s)))"

text \<open>\<open>s.replace(/\s+/g, " ")\<close>: every maximal run of white space becomes one space.\<close>

function collapseWs :: "string \<Rightarrow> string" where
  "collapseWs [] = []"
| "collapseWs (c # cs) =
     (if isSpace c then CHR '' '' # collapseWs (dropWhile isSpace cs)
      else c # collapseWs cs)"
  by pat_completeness auto
termination
  by (relation "measure length") (auto simp: length_dropWhile_le less_Suc_eq_le)

fun startsWith :: "string \<Rightarrow> string \<Rightarrow> bool" where
  "startsWith s [] = True"
| "startsWith [] (p # ps) = False"
| "startsWith (c # cs) (p # ps) = (c = p \<and> startsWith cs ps)"

text \<open>
  \<open>s.replaceAll(pat, rep)\<close> for a non-empty string pattern: matches are found left to
  right and do not overlap. (With an empty pattern JavaScript inserts \<open>rep\<close> around every
  code unit; the code only passes literal, non-empty patterns, and the model leaves the
  string as it is.)
\<close>

function replaceAll :: "string \<Rightarrow> string \<Rightarrow> string \<Rightarrow> string" where
  "replaceAll pat rep [] = []"
| "replaceAll pat rep (c # cs) =
     (if pat \<noteq> [] \<and> startsWith (c # cs) pat
      then rep @ replaceAll pat rep (drop (length pat) (c # cs))
      else c # replaceAll pat rep cs)"
  by pat_completeness auto
termination
  by (relation "measure (\<lambda>(pat, rep, s). length s)") (auto simp: neq_Nil_conv)

text \<open>\<open>parts.join(sep)\<close> on strings.\<close>

fun joinWith :: "string \<Rightarrow> string list \<Rightarrow> string" where
  "joinWith sep [] = []"
| "joinWith sep [s] = s"
| "joinWith sep (s # t # ss) = s @ sep @ joinWith sep (t # ss)"

text \<open>\<open>s.includes(pat)\<close>.\<close>

fun includesStr :: "string \<Rightarrow> string \<Rightarrow> bool" where
  "includesStr [] pat = (pat = [])"
| "includesStr (c # cs) pat = (startsWith (c # cs) pat \<or> includesStr cs pat)"

text \<open>Lower case for the ASCII letters. It stands for \<open>toLowerCase\<close> and for the \<open>i\<close> flag
  of a regular expression where the result is only compared with ASCII text: no other code
  unit below 256 becomes an ASCII letter.\<close>

definition lowerAscii :: "char \<Rightarrow> char" where
  "lowerAscii c =
     (if CHR ''A'' \<le> c \<and> c \<le> CHR ''Z'' then char_of (of_char c + (32::nat)) else c)"

subsection \<open>Numbers as decimal strings\<close>

definition digitChar :: "nat \<Rightarrow> char" where
  "digitChar d = char_of (48 + d)"

fun showNat :: "nat \<Rightarrow> string" where
  "showNat n = (if n < 10 then [digitChar n] else showNat (n div 10) @ [digitChar (n mod 10)])"

declare showNat.simps [simp del]

definition showInt :: "int \<Rightarrow> string" where
  "showInt i = (if i < 0 then CHR ''-'' # showNat (nat (- i)) else showNat (nat i))"

subsection \<open>\<open>String(v)\<close>\<close>

text \<open>
  \<open>String(v)\<close> is \<open>ToString(v)\<close>. On an object it is \<open>OrdinaryToPrimitive\<close> with hint
  string: \<open>toString\<close> is looked up and called if callable, then \<open>valueOf\<close>. A value made
  by \<open>JSON.parse\<close> holds no function, so an object with an own property \<open>toString\<close> has a
  non-callable one, \<open>valueOf\<close> (own and non-callable, or \<open>Object.prototype.valueOf\<close>, which
  returns the object) gives no primitive either, and \<open>TypeError\<close> is thrown. Without an
  own \<open>toString\<close>, \<open>Object.prototype.toString\<close> gives \<open>[object Object]\<close>. An array is
  \<open>join(",")\<close> of its elements, \<open>null\<close> and \<open>undefined\<close> elements giving the empty string.
\<close>

fun jsToString :: "jsval \<Rightarrow> exn + string"
  and jsToStrings :: "jsval list \<Rightarrow> exn + string list" where
  "jsToString JUndefined = Inr ''undefined''"
| "jsToString JNull = Inr ''null''"
| "jsToString (JBool b) = Inr (if b then ''true'' else ''false'')"
| "jsToString (JNum n) = Inr (showInt n)"
| "jsToString (JStr s) = Inr s"
| "jsToString (JArr xs) =
     (case jsToStrings xs of Inl e \<Rightarrow> Inl e | Inr ss \<Rightarrow> Inr (joinWith '','' ss))"
| "jsToString (JObj kvs) =
     (if ''toString'' \<in> set (map fst kvs) then Inl TypeError_toPrimitive
      else Inr ''[object Object]'')"
| "jsToStrings [] = Inr []"
| "jsToStrings (x # xs) =
     (case (if x = JUndefined \<or> x = JNull then Inr [] else jsToString x) of
        Inl e \<Rightarrow> Inl e
      | Inr s \<Rightarrow> (case jsToStrings xs of Inl e \<Rightarrow> Inl e | Inr ss \<Rightarrow> Inr (s # ss)))"

text \<open>\<open>xs.slice(0, end)\<close> for an integer \<open>end\<close>: a negative \<open>end\<close> counts from the end of
  the array.\<close>

definition slice0 :: "int \<Rightarrow> 'a list \<Rightarrow> 'a list" where
  "slice0 end xs =
     (let len = int (length xs);
          final = (if end < 0 then max (len + end) 0 else min end len)
      in take (nat final) xs)"

subsection \<open>Numbers: IEEE 754 doubles\<close>

text \<open>
  A JavaScript number is a binary64 value: \<open>NaN\<close>, an infinity, or a finite value, which
  is kept as the real number it denotes (the two zeros are one \<open>Fin 0\<close>). Every
  arithmetic operation rounds its exact result to the nearest double, ties to even.
\<close>

datatype jsnum = NaN | NegInf | PosInf | Fin real

text \<open>\<open>2\<close> to an integer power, as a real.\<close>

definition pow2 :: "int \<Rightarrow> real" where
  "pow2 k = (if 0 \<le> k then 2 ^ nat k else 1 / 2 ^ nat (- k))"

text \<open>The binary exponent of a positive real: the \<open>e\<close> with \<open>2 ^ e \<le> x < 2 ^ (e + 1)\<close>.\<close>

function binExp :: "real \<Rightarrow> int" where
  "binExp x =
     (if x \<le> 0 then 0
      else if 2 \<le> x then binExp (x / 2) + 1
      else if x < 1 then binExp (x * 2) - 1
      else 0)"
  by pat_completeness auto
termination
proof (relation "measure (\<lambda>x. nat \<bar>\<lfloor>log 2 x\<rfloor>\<bar>)")
  show "wf (measure (\<lambda>x. nat \<bar>\<lfloor>log 2 x\<rfloor>\<bar>))" by simp
next
  fix x :: real
  assume "\<not> x \<le> 0" "2 \<le> x"
  then have "log 2 (x / 2) = log 2 x - 1" "1 \<le> log 2 x"
    by (simp_all add: log_divide le_log_iff)
  then show "(x / 2, x) \<in> measure (\<lambda>x. nat \<bar>\<lfloor>log 2 x\<rfloor>\<bar>)"
    by (simp add: le_floor_iff)
next
  fix x :: real
  assume a: "\<not> x \<le> 0" "\<not> 2 \<le> x" "x < 1"
  then have l: "log 2 (x * 2) = log 2 x + 1" and "log 2 x < 0"
    by (simp_all add: log_mult)
  define z where "z = \<lfloor>log 2 x\<rfloor>"
  have "z < 0"
    using \<open>log 2 x < 0\<close> by (simp add: z_def floor_less_iff)
  moreover have "\<lfloor>log 2 x + 1\<rfloor> = z + 1"
    by (simp add: z_def)
  ultimately have "nat \<bar>\<lfloor>log 2 x + 1\<rfloor>\<bar> < nat \<bar>z\<bar>"
    by linarith
  then show "(x * 2, x) \<in> measure (\<lambda>x. nat \<bar>\<lfloor>log 2 x\<rfloor>\<bar>)"
    unfolding in_measure l z_def .
qed

declare binExp.simps [simp del]

text \<open>The nearest integer, a tie going to the even one.\<close>

definition roundHalfEven :: "real \<Rightarrow> int" where
  "roundHalfEven q =
     (let f = \<lfloor>q\<rfloor>; d = q - of_int f
      in if d < 1 / 2 then f else if 1 / 2 < d then f + 1 else if even f then f else f + 1)"

text \<open>
  Rounding an exact result to a double: 53 significant bits, so the spacing at binary
  exponent \<open>e\<close> is \<open>2 ^ (e - 52)\<close>; below \<open>2 ^ - 1022\<close> (subnormal numbers) the spacing
  stays \<open>2 ^ - 1074\<close>; a rounded magnitude of \<open>2 ^ 1024\<close> or more is an infinity.
\<close>

definition roundToDouble :: "real \<Rightarrow> jsnum" where
  "roundToDouble x =
     (if x = 0 then Fin 0
      else (let e = max (binExp \<bar>x\<bar>) (- 1022);
                u = pow2 (e - 52);
                y = of_int (roundHalfEven (x / u)) * u
            in if 2 ^ 1024 \<le> \<bar>y\<bar> then (if 0 < x then PosInf else NegInf) else Fin y))"

text \<open>The sign of a number that is not \<open>NaN\<close>.\<close>

fun signD :: "jsnum \<Rightarrow> int" where
  "signD NaN = 0"
| "signD NegInf = - 1"
| "signD PosInf = 1"
| "signD (Fin a) = (if a < 0 then - 1 else if a = 0 then 0 else 1)"

text \<open>\<open>x * y\<close>: an infinity times zero is \<open>NaN\<close>.\<close>

fun mulD :: "jsnum \<Rightarrow> jsnum \<Rightarrow> jsnum" where
  "mulD NaN y = NaN"
| "mulD x NaN = NaN"
| "mulD (Fin a) (Fin b) = roundToDouble (a * b)"
| "mulD x y =
     (if signD x * signD y = 0 then NaN else if 0 < signD x * signD y then PosInf else NegInf)"

text \<open>\<open>x + y\<close>: the two infinities add up to \<open>NaN\<close>.\<close>

fun addD :: "jsnum \<Rightarrow> jsnum \<Rightarrow> jsnum" where
  "addD NaN y = NaN"
| "addD x NaN = NaN"
| "addD (Fin a) (Fin b) = roundToDouble (a + b)"
| "addD PosInf NegInf = NaN"
| "addD NegInf PosInf = NaN"
| "addD (Fin a) y = y"
| "addD x y = x"

text \<open>\<open>Math.min(x, y)\<close>: \<open>NaN\<close> if either argument is.\<close>

fun minD :: "jsnum \<Rightarrow> jsnum \<Rightarrow> jsnum" where
  "minD NaN y = NaN"
| "minD x NaN = NaN"
| "minD NegInf y = NegInf"
| "minD x NegInf = NegInf"
| "minD PosInf y = y"
| "minD x PosInf = x"
| "minD (Fin a) (Fin b) = Fin (min a b)"

text \<open>\<open>Math.floor(x)\<close>.\<close>

fun floorD :: "jsnum \<Rightarrow> jsnum" where
  "floorD (Fin a) = Fin (of_int \<lfloor>a\<rfloor>)"
| "floorD x = x"

text \<open>\<open>Math.pow(2, k)\<close> for an integer \<open>k\<close>.\<close>

definition pow2D :: "int \<Rightarrow> jsnum" where
  "pow2D k = roundToDouble (pow2 k)"

text \<open>
  The retry budget \<open>Number(process.env.SCRAPINGDOG_MAX_ATTEMPTS || 3)\<close>: \<open>NaN\<close> or a
  finite double, which can have a fraction. The loop counter \<open>attempt\<close> is an integer
  (\<open>attempt++\<close> is exact below \<open>2 ^ 53\<close>) and a comparison with \<open>NaN\<close> is false. An
  infinite budget is outside the type, and the model is that of the code for budgets
  below \<open>2 ^ 53\<close>: with \<open>Infinity\<close>, or from \<open>2 ^ 53\<close> on, where \<open>attempt++\<close> no longer
  changes the counter, the loop of the code has no bound of its own.
\<close>

datatype maxnum = MaxNaN | MaxFin real

text \<open>\<open>attempt <= maxAttempts\<close> and \<open>attempt < maxAttempts\<close>.\<close>

fun leMax :: "int \<Rightarrow> maxnum \<Rightarrow> bool" where
  "leMax attempt MaxNaN = False"
| "leMax attempt (MaxFin m) = (of_int attempt \<le> m)"

fun ltMax :: "int \<Rightarrow> maxnum \<Rightarrow> bool" where
  "ltMax attempt MaxNaN = False"
| "ltMax attempt (MaxFin m) = (of_int attempt < m)"

section \<open>The transcript fetcher (\<open>src/scrapingdog.mjs\<close>)\<close>

text \<open>
  What one \<open>fetch\<close> call can do: reject with an error, or resolve to a response. Of a
  response the code reads \<open>status\<close> (\<open>ok\<close> is status 200 to 299), \<open>text()\<close> when the
  response is not ok and \<open>json()\<close> when it is; each of the two readers either yields a
  value or rejects (\<open>None\<close>).
\<close>

record response =
  status :: nat
  textBody :: "string option"
  jsonBody :: "jsval option"

datatype outcome = FetchRejects exn | Responded response

definition resOk :: "response \<Rightarrow> bool" where
  "resOk res = (200 \<le> status res \<and> status res \<le> 299)"

datatype transcript_result =
    Success string nat jsval  \<comment> \<open>\<open>{ok: true, text, segments, lang}\<close>\<close>
  | Failure string            \<comment> \<open>\<open>{ok: false, reason}\<close>\<close>

definition isTransientHttp :: "nat \<Rightarrow> bool" where
  "isTransientHttp st = (st = 429 \<or> st = 500 \<or> st = 502 \<or> st = 503 \<or> st = 504)"

text \<open>
  \<open>backoffDelay(baseMs, attempt)\<close>, in double arithmetic; \<open>r\<close> is the double that
  \<open>Math.random()\<close> returns, with \<open>0 \<le> r < 1\<close>.
\<close>

definition backoffDelay :: "jsnum \<Rightarrow> int \<Rightarrow> real \<Rightarrow> jsnum" where
  "backoffDelay baseMs attempt r =
     (let exp = minD (mulD baseMs (pow2D (attempt - 1))) (Fin 8000);
          jitter = floorD (mulD (Fin r) (Fin 250))
      in addD exp jitter)"

definition safeReadText :: "response \<Rightarrow> string" where
  "safeReadText res = (case textBody res of None \<Rightarrow> [] | Some t \<Rightarrow> take 300 t)"

text \<open>\<open>null\<close> when \<open>res.json()\<close> rejects.\<close>

definition safeReadJson :: "response \<Rightarrow> jsval" where
  "safeReadJson res = (case jsonBody res of None \<Rightarrow> JNull | Some d \<Rightarrow> d)"

definition formatProviderError :: "string \<Rightarrow> nat \<Rightarrow> string \<Rightarrow> string" where
  "formatProviderError provider st bodyText =
     (let low = map lowerAscii bodyText;
          looksHtml = (includesStr low ''<!doctype html>'' \<or> includesStr low ''<html'')
      in if looksHtml then provider @ ''_http_'' @ showNat st
         else if bodyText = [] then provider @ ''_http_'' @ showNat st
         else provider @ ''_http_'' @ showNat st @ '':'' @ take 120 (collapseWs bodyText))"

definition safeErrMsg :: "exn \<Rightarrow> string" where
  "safeErrMsg err =
     (let msg = (if exnMessage err \<noteq> [] then exnMessage err else errToString err)
      in take 200 (collapseWs msg))"

definition decodeHtmlEntities :: "string \<Rightarrow> string" where
  "decodeHtmlEntities input =
     trim (collapseWs
       (replaceAll ''&gt;'' ''>''
       (replaceAll ''&nbsp;'' '' ''
       (replaceAll ''&gt;'' ''>''
       (replaceAll ''&lt;'' ''<''
       (replaceAll ''&quot;'' [CHR 0x22]
       (replaceAll ''&#39;'' [CHR 0x27]
       (replaceAll ''&amp;'' ''&'' input))))))))"

text \<open>
  The text the code builds from the array \<open>transcripts\<close>:
  \<open>map((seg) => seg?.text || "")\<close>, \<open>filter(Boolean)\<close>, \<open>join(" ")\<close> (which converts every
  element with \<open>ToString\<close> and can throw), \<open>replace(/\s+/g, " ")\<close>, \<open>trim()\<close>.
\<close>

definition fullTextOf :: "jsval list \<Rightarrow> exn + string" where
  "fullTextOf transcripts =
     (case jsToStrings (filter truthy (map (\<lambda>seg. jsOr (getProp seg ''text'') (JStr [])) transcripts)) of
        Inl e \<Rightarrow> Inl e
      | Inr parts \<Rightarrow> Inr (trim (collapseWs (joinWith '' '' parts))))"

text \<open>Lines 60 to 93: what the code makes of a parsed, truthy body \<open>data\<close>.\<close>

definition readTranscripts :: "jsval \<Rightarrow> exn + transcript_result" where
  "readTranscripts data =
     (case getProp data ''transcripts'' of
        JArr [] \<Rightarrow> Inr (Failure ''no_transcript'')
      | JArr (t0 # rest) \<Rightarrow>
          if rest = [] \<and> typeof t0 = TString then Inr (Failure ''no_transcript'')
          else if typeof t0 \<noteq> TObject then Inr (Failure ''no_transcript'')
          else (case fullTextOf (t0 # rest) of
                  Inl e \<Rightarrow> Inl e
                | Inr fullText \<Rightarrow>
                    if fullText = [] \<or> length fullText < 200 then Inr (Failure ''too_short'')
                    else Inr (Success (decodeHtmlEntities fullText) (length (t0 # rest))
                               (jsOr (getProp t0 ''lang'') JNull)))
      | _ \<Rightarrow> Inr (Failure ''no_transcript''))"

text \<open>
  One pass through the loop body either returns a result or sleeps and goes on to the
  next attempt (\<open>await sleep(backoffDelay(baseDelayMs, attempt)); continue;\<close>).
\<close>

datatype step = SleepAndContinue | Return transcript_result

text \<open>The \<open>try\<close> block of the loop body; \<open>Inl\<close> is an exception thrown inside it.\<close>

definition tryBlock :: "maxnum \<Rightarrow> int \<Rightarrow> outcome \<Rightarrow> exn + step" where
  "tryBlock maxAttempts attempt oc =
     (case oc of
        FetchRejects err \<Rightarrow> Inl err
      | Responded res \<Rightarrow>
          if \<not> resOk res then
            (let st = status res; bodyText = safeReadText res
             in if isTransientHttp st \<and> ltMax attempt maxAttempts then Inr SleepAndContinue
                else Inr (Return (Failure (formatProviderError ''scrapingdog'' st bodyText))))
          else
            (let data = safeReadJson res
             in if \<not> truthy data then
                  (if ltMax attempt maxAttempts then Inr SleepAndContinue
                   else Inr (Return (Failure ''scrapingdog_invalid_json'')))
                else (case readTranscripts data of
                        Inl err \<Rightarrow> Inl err
                      | Inr r \<Rightarrow> Inr (Return r))))"

text \<open>The \<open>catch\<close> block.\<close>

definition catchBlock :: "maxnum \<Rightarrow> int \<Rightarrow> exn \<Rightarrow> step" where
  "catchBlock maxAttempts attempt err =
     (if ltMax attempt maxAttempts then SleepAndContinue
      else Return (Failure (''scrapingdog_fetch_error:'' @ safeErrMsg err)))"

definition loopBody :: "maxnum \<Rightarrow> int \<Rightarrow> outcome \<Rightarrow> step" where
  "loopBody maxAttempts attempt oc =
     (case tryBlock maxAttempts attempt oc of
        Inl err \<Rightarrow> catchBlock maxAttempts attempt err
      | Inr s \<Rightarrow> s)"

text \<open>
  The observable events of a run: a request is issued (with the attempt number), or the
  process sleeps (with the delay in milliseconds).
\<close>

datatype event = Attempt int | Sleep jsnum

text \<open>
  The \<open>for\<close> loop from \<open>attempt\<close> on. \<open>world a\<close> is what the request of attempt \<open>a\<close>
  does and \<open>rnd a\<close> what \<open>Math.random()\<close> returns in the sleep that follows it. The
  result is \<open>None\<close> when the loop ends without \<open>return\<close>, and the events in order. The
  loop ends for every budget of the type: the counter passes the floor of a finite
  budget, and the condition is false at once for \<open>NaN\<close>.
\<close>

function fetchLoop ::
  "maxnum \<Rightarrow> jsnum \<Rightarrow> (int \<Rightarrow> outcome) \<Rightarrow> (int \<Rightarrow> real) \<Rightarrow> int \<Rightarrow> transcript_result option \<times> event list"
where
  "fetchLoop maxAttempts baseDelayMs world rnd attempt =
     (if leMax attempt maxAttempts then
        (case loopBody maxAttempts attempt (world attempt) of
           Return r \<Rightarrow> (Some r, [Attempt attempt])
         | SleepAndContinue \<Rightarrow>
             (let (r, evs) = fetchLoop maxAttempts baseDelayMs world rnd (attempt + 1)
              in (r, Attempt attempt # Sleep (backoffDelay baseDelayMs attempt (rnd attempt)) # evs)))
      else (None, []))"
  by pat_completeness auto
termination
proof (relation "measure (\<lambda>(maxAttempts, baseDelayMs, world, rnd, attempt).
                   case maxAttempts of MaxNaN \<Rightarrow> 0 | MaxFin m \<Rightarrow> nat (\<lfloor>m\<rfloor> + 1 - attempt))")
  show "wf (measure (\<lambda>(maxAttempts, baseDelayMs, world, rnd, attempt).
                   case maxAttempts of MaxNaN \<Rightarrow> 0 | MaxFin m \<Rightarrow> nat (\<lfloor>m\<rfloor> + 1 - attempt)))"
    by simp
next
  fix maxAttempts :: maxnum and baseDelayMs :: jsnum and world :: "int \<Rightarrow> outcome"
    and rnd :: "int \<Rightarrow> real" and attempt :: int
  assume "leMax attempt maxAttempts"
  then obtain m where m: "maxAttempts = MaxFin m" "of_int attempt \<le> m"
    by (cases maxAttempts) simp_all
  then have "attempt \<le> \<lfloor>m\<rfloor>"
    by (simp add: le_floor_iff)
  then show "((maxAttempts, baseDelayMs, world, rnd, attempt + 1),
              (maxAttempts, baseDelayMs, world, rnd, attempt))
             \<in> measure (\<lambda>(maxAttempts, baseDelayMs, world, rnd, attempt).
                   case maxAttempts of MaxNaN \<Rightarrow> 0 | MaxFin m \<Rightarrow> nat (\<lfloor>m\<rfloor> + 1 - attempt))"
    using m(1) by simp
qed

declare fetchLoop.simps [simp del]

text \<open>
  \<open>fetchTranscriptFromScrapingDog(videoId)\<close>. \<open>apiKey\<close> is
  \<open>process.env.SCRAPINGDOG_API_KEY\<close> (\<open>None\<close> when unset; unset and empty are both falsy),
  \<open>maxAttempts\<close> and \<open>baseDelayMs\<close> the two numbers read from the environment, \<open>world\<close>
  what the provider does for a video at each attempt. \<open>Inl\<close> is the thrown error.
\<close>

definition fetchTranscriptFromScrapingDog ::
  "string option \<Rightarrow> maxnum \<Rightarrow> jsnum \<Rightarrow> (string \<Rightarrow> int \<Rightarrow> outcome) \<Rightarrow> (int \<Rightarrow> real) \<Rightarrow> string
     \<Rightarrow> exn + (transcript_result \<times> event list)" where
  "fetchTranscriptFromScrapingDog apiKey maxAttempts baseDelayMs world rnd videoId =
     (if apiKey = None \<or> apiKey = Some [] then Inl (Exn ''Error'' ''Missing SCRAPINGDOG_API_KEY'')
      else (case fetchLoop maxAttempts baseDelayMs (world videoId) rnd 1 of
              (Some r, evs) \<Rightarrow> Inr (r, evs)
            | (None, evs) \<Rightarrow> Inr (Failure ''scrapingdog_unknown_error'', evs)))"

section \<open>The summary normalizer (\<open>normalizeSummary\<close>)\<close>

record summary =
  one_liner :: string
  key_points :: "string list"
  who_should_watch :: string

text \<open>
  \<open>normalizeSummary(obj, maxBullets)\<close>. The three \<open>String(...)\<close> conversions can throw
  (see \<open>jsToString\<close>); nothing catches the exception, so it leaves the function.
\<close>

definition normalizeSummary :: "jsval \<Rightarrow> int \<Rightarrow> exn + summary" where
  "normalizeSummary obj maxBullets =
     (case jsToString (jsOr (getProp obj ''one_liner'') (JStr [])) of
        Inl e \<Rightarrow> Inl e
      | Inr s1 \<Rightarrow>
     (case jsToString (jsOr (getProp obj ''who_should_watch'') (JStr [])) of
        Inl e \<Rightarrow> Inl e
      | Inr s2 \<Rightarrow>
     (case mapE (\<lambda>x. case jsToString x of Inl e \<Rightarrow> Inl e | Inr s \<Rightarrow> Inr (trim s))
             (case getProp obj ''key_points'' of JArr xs \<Rightarrow> xs | _ \<Rightarrow> []) of
        Inl e \<Rightarrow> Inl e
      | Inr points \<Rightarrow>
          Inr \<lparr> one_liner =
                  take 220 (if trim s1 \<noteq> [] then trim s1 else ''Summary unavailable.''),
                key_points = slice0 maxBullets (filter (\<lambda>p. p \<noteq> []) points),
                who_should_watch =
                  take 180 (if trim s2 \<noteq> [] then trim s2
                            else ''Anyone who wants a neutral overview.'') \<rparr>)))"

section \<open>Deduplication and the digest assembler (\<open>run\<close> in \<open>src/index.mjs\<close>)\<close>

record video =
  title :: string
  url :: string
  videoId :: string
  publishedAt :: string
  channelName :: string

text \<open>A display item: \<open>status\<close> is \<open>summarized\<close> (with a summary) or \<open>skipped\<close> (with a
  reason).\<close>

record display_item =
  itemStatus :: string
  itemVideo :: video
  itemSummary :: "summary option"
  itemReason :: "string option"

record group_digest =
  label :: string
  totalNew :: nat
  summarizedCount :: nat
  skippedCount :: nat
  notShownCount :: int
  items :: "display_item list"

text \<open>
  \<open>getCapPerSection()\<close>: \<open>freq\<close> is \<open>process.env.DIGEST_FREQUENCY\<close>, \<open>capWeekly\<close> and
  \<open>capDaily\<close> are the numbers in \<open>CAP_WEEKLY_PER_SECTION\<close> and \<open>CAP_DAILY_PER_SECTION\<close>
  (\<open>None\<close>: unset or empty, so that \<open>||\<close> takes the default).
\<close>

definition getCapPerSection :: "string option \<Rightarrow> int option \<Rightarrow> int option \<Rightarrow> int" where
  "getCapPerSection freq capWeekly capDaily =
     (let f = map lowerAscii (case freq of None \<Rightarrow> ''daily'' | Some s \<Rightarrow> if s = [] then ''daily'' else s)
      in if f = ''weekly'' then (case capWeekly of None \<Rightarrow> 15 | Some c \<Rightarrow> c)
         else (case capDaily of None \<Rightarrow> 7 | Some c \<Rightarrow> c))"

text \<open>
  A \<open>Map\<close> as the list of its entries in insertion order: \<open>set\<close> on a key that is there
  replaces the value and keeps the entry's place; a new key goes to the end.
\<close>

fun mapSet :: "'k \<Rightarrow> 'v \<Rightarrow> ('k \<times> 'v) list \<Rightarrow> ('k \<times> 'v) list" where
  "mapSet k v [] = [(k, v)]"
| "mapSet k v ((k', v') # m) = (if k' = k then (k, v) # m else (k', v') # mapSet k v m)"

text \<open>
  \<open>xs.sort(cmp)\<close>, as an insertion sort that asks the comparator. (ECMAScript leaves the
  algorithm to the engine; the comparator of the code never returns 0, so the place of
  records with equal timestamps depends on the engine. No property below depends on it.)
\<close>

fun insertBy :: "('a \<Rightarrow> 'a \<Rightarrow> int) \<Rightarrow> 'a \<Rightarrow> 'a list \<Rightarrow> 'a list" where
  "insertBy cmp x [] = [x]"
| "insertBy cmp x (y # ys) = (if cmp x y \<le> 0 then x # y # ys else y # insertBy cmp x ys)"

definition jsSort :: "('a \<Rightarrow> 'a \<Rightarrow> int) \<Rightarrow> 'a list \<Rightarrow> 'a list" where
  "jsSort cmp xs = foldr (insertBy cmp) xs []"

text \<open>The comparator \<open>(a, b) => (a.publishedAt < b.publishedAt ? 1 : -1)\<close>; \<open>key\<close> reads
  \<open>publishedAt\<close>.\<close>

definition newestFirst :: "('a \<Rightarrow> string) \<Rightarrow> 'a \<Rightarrow> 'a \<Rightarrow> int" where
  "newestFirst key a b = (if key a < key b then 1 else - 1)"

text \<open>Lines 135 to 140: \<open>dedup.set(v.videoId, v)\<close> for every collected video, then the
  values, sorted.\<close>

definition dedupVideos :: "video list \<Rightarrow> video list" where
  "dedupVideos allVideos =
     (let dedup = fold (\<lambda>v m. mapSet (videoId v) v m) allVideos []
      in jsSort (newestFirst publishedAt) (map snd dedup))"

definition skippedItem :: "video \<Rightarrow> string \<Rightarrow> display_item" where
  "skippedItem v r =
     \<lparr> itemStatus = ''skipped'', itemVideo = v, itemSummary = None,
       itemReason = Some (if r = ''no_transcript''
                          then ''This video has no transcript/captions available on YouTube.''
                          else ''Transcript unavailable or too short.'') \<rparr>"

definition summarizedItem :: "video \<Rightarrow> summary \<Rightarrow> display_item" where
  "summarizedItem v s =
     \<lparr> itemStatus = ''summarized'', itemVideo = v, itemSummary = Some s, itemReason = None \<rparr>"

text \<open>
  The loop over the videos (lines 145 to 175). \<open>fetchT\<close> is the call of
  \<open>fetchTranscriptFromScrapingDog\<close> on a video identifier and \<open>summarize\<close> the call of
  \<open>summarizeTranscript\<close> on a video and its transcript text; an exception of either is not
  caught and ends \<open>run\<close>.
\<close>

fun scanVideos ::
  "(string \<Rightarrow> exn + transcript_result) \<Rightarrow> (video \<Rightarrow> string \<Rightarrow> exn + summary) \<Rightarrow> video list
     \<Rightarrow> display_item list \<Rightarrow> display_item list \<Rightarrow> exn + (display_item list \<times> display_item list)"
where
  "scanVideos fetchT summarize [] summarizedItems skippedItems =
     Inr (summarizedItems, skippedItems)"
| "scanVideos fetchT summarize (v # vs) summarizedItems skippedItems =
     (case fetchT (videoId v) of
        Inl e \<Rightarrow> Inl e
      | Inr (Failure r) \<Rightarrow>
          scanVideos fetchT summarize vs summarizedItems (skippedItems @ [skippedItem v r])
      | Inr (Success txt n lng) \<Rightarrow>
          (case summarize v txt of
             Inl e \<Rightarrow> Inl e
           | Inr s \<Rightarrow>
               scanVideos fetchT summarize vs (summarizedItems @ [summarizedItem v s]) skippedItems))"

text \<open>One group of \<open>run\<close>, from the videos collected over its channels to its section.\<close>

definition assembleGroup ::
  "int \<Rightarrow> string \<Rightarrow> (string \<Rightarrow> exn + transcript_result) \<Rightarrow> (video \<Rightarrow> string \<Rightarrow> exn + summary)
     \<Rightarrow> video list \<Rightarrow> exn + group_digest" where
  "assembleGroup cap packLabel fetchT summarize allVideos =
     (let videos = dedupVideos allVideos
      in case scanVideos fetchT summarize videos [] [] of
           Inl e \<Rightarrow> Inl e
         | Inr (summarizedItems, skippedItems) \<Rightarrow>
             (let combined = jsSort (newestFirst (\<lambda>x. publishedAt (itemVideo x)))
                               (summarizedItems @ skippedItems);
                  displayed = slice0 cap combined
              in Inr \<lparr> label = packLabel,
                       totalNew = length videos,
                       summarizedCount = length summarizedItems,
                       skippedCount = length skippedItems,
                       notShownCount = max 0 (int (length combined) - int (length displayed)),
                       items = displayed \<rparr>))"

text \<open>The call \<open>await fetchTranscriptFromScrapingDog(v.videoId)\<close> of \<open>run\<close>: the fetcher's
  result or exception, without the trace of the model.\<close>

definition callFetcher ::
  "string option \<Rightarrow> maxnum \<Rightarrow> jsnum \<Rightarrow> (string \<Rightarrow> int \<Rightarrow> outcome) \<Rightarrow> (int \<Rightarrow> real) \<Rightarrow> string
     \<Rightarrow> exn + transcript_result" where
  "callFetcher apiKey maxAttempts baseDelayMs world rnd vid =
     map_sum id fst (fetchTranscriptFromScrapingDog apiKey maxAttempts baseDelayMs world rnd vid)"

section \<open>Properties: the predicates and sample inputs the theorems use\<close>

text \<open>A provider that answers every request the same way, and a random source that
  always returns one half.\<close>

definition always :: "outcome \<Rightarrow> int \<Rightarrow> outcome" where
  "always oc attempt = oc"

definition everyVideo :: "(int \<Rightarrow> outcome) \<Rightarrow> string \<Rightarrow> int \<Rightarrow> outcome" where
  "everyVideo w vid = w"

definition halfJitter :: "int \<Rightarrow> real" where
  "halfJitter attempt = 1 / 2"



text \<open>A real number that is a double: rounding leaves it as it is.\<close>

definition isDouble :: "real \<Rightarrow> bool" where
  "isDouble x = (roundToDouble x = Fin x)"




text \<open>The body the provider sends for a video without captions.\<close>

definition noTranscriptSentinel :: jsval where
  "noTranscriptSentinel = JObj [(''transcripts'', JArr [JStr ''This video has no transcripts''])]"

text \<open>The record that was inserted last under the identifier \<open>i\<close>.\<close>

definition lastInserted :: "video list \<Rightarrow> string \<Rightarrow> video" where
  "lastInserted allVideos i = last (filter (\<lambda>v. videoId v = i) allVideos)"

text \<open>Sample data: one video seen on two channels, a second video, a transcript source
  that has a transcript for the first only, and a summarizer.\<close>

definition videoA :: video where
  "videoA = \<lparr> title = ''Intro'', url = ''https://www.youtube.com/watch?v=abc123'',
              videoId = ''abc123'', publishedAt = ''2024-05-02T10:00:00+00:00'',
              channelName = ''Channel A'' \<rparr>"

definition videoA' :: video where
  "videoA' = \<lparr> title = ''Intro'', url = ''https://www.youtube.com/watch?v=abc123'',
               videoId = ''abc123'', publishedAt = ''2024-05-02T10:00:00+00:00'',
               channelName = ''Channel B'' \<rparr>"

definition videoB :: video where
  "videoB = \<lparr> title = ''News'', url = ''https://www.youtube.com/watch?v=xyz789'',
              videoId = ''xyz789'', publishedAt = ''2024-05-03T08:30:00+00:00'',
              channelName = ''Channel A'' \<rparr>"

definition sampleFetch :: "string \<Rightarrow> exn + transcript_result" where
  "sampleFetch vid =
     (if vid = ''abc123'' then Inr (Success ''a transcript'' 3 (JStr ''en''))
      else Inr (Failure ''no_transcript''))"

definition sampleSummarize :: "video \<Rightarrow> string \<Rightarrow> exn + summary" where
  "sampleSummarize v txt =
     Inr \<lparr> one_liner = ''About '' @ title v, key_points = [], who_should_watch = ''Anyone'' \<rparr>"

text \<open>A value that \<open>String\<close> converts without throwing, and an input of the normalizer
  whose three fields (and the elements of \<open>key_points\<close>, when it is an array) are such
  values.\<close>

definition convertible :: "jsval \<Rightarrow> bool" where
  "convertible v = (case jsToString v of Inl e \<Rightarrow> False | Inr s \<Rightarrow> True)"

definition fieldsConvertible :: "jsval \<Rightarrow> bool" where
  "fieldsConvertible obj =
     (convertible (getProp obj ''one_liner'') \<and> convertible (getProp obj ''who_should_watch'')
      \<and> (case getProp obj ''key_points'' of JArr xs \<Rightarrow> list_all convertible xs | _ \<Rightarrow> True))"

text \<open>Whether the transcript source has a usable transcript for a video.\<close>

definition hasTranscript :: "(string \<Rightarrow> exn + transcript_result) \<Rightarrow> video \<Rightarrow> bool" where
  "hasTranscript fetchT v =
     (case fetchT (videoId v) of Inr (Success txt n lng) \<Rightarrow> True | _ \<Rightarrow> False)"

section \<open>Doubles: proofs\<close>

lemma pow2_powr: "pow2 k = 2 powr (of_int k)"
  by (simp add: pow2_def powr_int)

lemma binExp_floor_log: "0 < x \<Longrightarrow> binExp x = \<lfloor>log 2 x\<rfloor>"
proof (induction x rule: binExp.induct)
  case (1 x)
  show ?case
  proof (cases "2 \<le> x")
    case True
    then have "log 2 (x / 2) = log 2 x - 1" using "1.prems" by (simp add: log_divide)
    with True "1.prems" "1.IH"(1) show ?thesis
      by (subst binExp.simps) simp
  next
    case False
    show ?thesis
    proof (cases "x < 1")
      case True
      then have "log 2 (x * 2) = log 2 x + 1" using "1.prems" by (simp add: log_mult)
      with True False "1.prems" "1.IH"(2) show ?thesis
        by (subst binExp.simps) simp
    next
      case f: False
      then have "0 \<le> log 2 x" "log 2 x < 1" using False "1.prems"
        by (simp_all add: less_log_iff log_less_iff)
      then have "\<lfloor>log 2 x\<rfloor> = 0" by (simp add: floor_eq_iff)
      with f False "1.prems" show ?thesis
        by (subst binExp.simps) simp
    qed
  qed
qed



lemma binExp_eqI:
  assumes "0 < x" "pow2 k \<le> x" "x < pow2 (k + 1)"
  shows "binExp x = k"
proof -
  have "\<lfloor>log 2 x\<rfloor> = k"
    using assms by (subst floor_log_eq_powr_iff) (simp_all add: pow2_powr)
  then show ?thesis using binExp_floor_log[OF assms(1)] by simp
qed


lemma pow2_pos [simp]: "0 < pow2 k"
  by (simp add: pow2_powr)

lemma pow2_nonzero [simp]: "pow2 k \<noteq> 0"
  using pow2_pos[of k] by linarith

lemma pow2_add: "pow2 (a + b) = pow2 a * pow2 b"
  by (simp add: pow2_powr powr_add)

lemma pow2_diff: "pow2 (a - b) = pow2 a / pow2 b"
  by (simp add: pow2_powr powr_diff)

lemma pow2_nat: "pow2 (int n) = 2 ^ n"
  by (simp add: pow2_def)

lemma pow2_mono: "a \<le> b \<Longrightarrow> pow2 a \<le> pow2 b"
  by (simp add: pow2_powr)

lemma roundHalfEven_of_int [simp]: "roundHalfEven (of_int m) = m"
  by (simp add: roundHalfEven_def)





lemma binExp_bounds:
  assumes "0 < x"
  shows "pow2 (binExp x) \<le> x" and "x < pow2 (binExp x + 1)"
  using floor_log_eq_powr_iff[of x 2 "binExp x"] binExp_floor_log[OF assms] assms
  by (simp_all add: pow2_powr)

lemma binExp_le:
  assumes "0 < x" "x < pow2 k"
  shows "binExp x < k"
proof (rule ccontr)
  assume "\<not> binExp x < k"
  then have "pow2 k \<le> pow2 (binExp x)" by (simp add: pow2_mono)
  with binExp_bounds(1)[OF assms(1)] assms(2) show False by linarith
qed




lemma roundToDouble_exact:
  assumes "0 < x" and "x = of_int N * pow2 d" and "max (binExp x) (- 1022) - 52 \<le> d"
  shows "roundToDouble x = (if 2 ^ 1024 \<le> x then PosInf else Fin x)"
proof -
  define e where "e = max (binExp x) (- 1022) - 52"
  define m where "m = nat (d - e)"
  have "pow2 d = pow2 (e + int m)"
    using assms(3) by (simp add: m_def e_def)
  then have "pow2 d = pow2 e * 2 ^ m"
    by (simp add: pow2_add pow2_nat)
  then have "x / pow2 e = of_int (N * 2 ^ m)"
    using assms(2) by simp
  then have "of_int (roundHalfEven (x / pow2 e)) * pow2 e = x"
    by (simp only: roundHalfEven_of_int) (simp add: \<open>pow2 d = pow2 e * 2 ^ m\<close> assms(2))
  then show ?thesis
    using assms(1) unfolding roundToDouble_def Let_def e_def by simp
qed



lemma isDouble_1: "isDouble 1"
  using binExp_eqI[of 1 0]
  by (simp add: isDouble_def roundToDouble_def pow2_def Let_def roundHalfEven_def)


lemma isDouble_0: "isDouble 0"
  by (simp add: isDouble_def roundToDouble_def)






text \<open>Positive integers below \<open>2 ^ 53\<close> are doubles.\<close>

lemma roundToDouble_pos_int:
  assumes "0 < k" "of_int k < (2::real) ^ 53"
  shows "roundToDouble (of_int k) = Fin (of_int k)"
proof -
  have pos: "0 < (of_int k :: real)" using assms(1) by simp
  have "binExp (of_int k) < 53"
    using binExp_le[of "of_int k" 53] pos assms(2) by (simp add: pow2_def)
  then have e: "max (binExp (of_int k)) (- 1022) - 52 \<le> 0" by simp
  have "(2::real) ^ 53 \<le> 2 ^ 1024" by (intro power_increasing) auto
  then have "\<not> (2::real) ^ 1024 \<le> of_int k" using assms(2) by linarith
  then show ?thesis
    using roundToDouble_exact[OF pos _ e, of k] by (simp add: pow2_def)
qed

lemma roundToDouble_numeral:
  assumes "numeral w < (2::real) ^ 53"
  shows "roundToDouble (numeral w) = Fin (numeral w)"
  using roundToDouble_pos_int[of "numeral w"] assms by simp

lemma roundToDouble_1: "roundToDouble 1 = Fin 1"
  using isDouble_1 by (simp add: isDouble_def)




text \<open>Two delays of the sample configuration: base 800, \<open>Math.random()\<close> one half.\<close>

lemma backoff_sample:
  "backoffDelay (Fin 800) 1 (1 / 2) = Fin 925"
  "backoffDelay (Fin 800) 2 (1 / 2) = Fin 1725"
  by (simp_all add: backoffDelay_def Let_def pow2D_def pow2_def roundToDouble_1 roundToDouble_numeral)


section \<open>The transcript fetcher: proofs\<close>

lemma readTranscripts_reason:
  "readTranscripts d = Inr (Failure r) \<Longrightarrow> r = ''no_transcript'' \<or> r = ''too_short''"
  by (auto simp: readTranscripts_def split: jsval.splits list.splits if_splits sum.splits)

lemma formatProviderError_prefix:
  "\<exists>rest. formatProviderError ''scrapingdog'' st body = ''scrapingdog_http_'' @ rest"
  by (simp add: formatProviderError_def Let_def)

text \<open>No \<open>return\<close> inside the loop carries the reason of the statement after the loop.\<close>

lemma loopBody_reason:
  assumes "loopBody M a oc = Return (Failure r)"
  shows "r \<noteq> ''scrapingdog_unknown_error'' \<and> r \<noteq> ''unknown_error''"
proof (cases "tryBlock M a oc")
  case (Inl err)
  with assms show ?thesis
    by (auto simp: loopBody_def catchBlock_def split: if_splits)
next
  case (Inr s)
  with assms have t: "tryBlock M a oc = Inr (Return (Failure r))"
    by (simp add: loopBody_def)
  show ?thesis
  proof (cases oc)
    case (FetchRejects e)
    with t show ?thesis by (simp add: tryBlock_def)
  next
    case (Responded res)
    obtain rest where f:
      "formatProviderError ''scrapingdog'' (status res) (safeReadText res) = ''scrapingdog_http_'' @ rest"
      using formatProviderError_prefix by blast
    from t Responded show ?thesis
      using f
      by (auto simp: tryBlock_def Let_def split: if_splits sum.splits dest!: readTranscripts_reason)
  qed
qed

text \<open>Every \<open>continue\<close> is guarded by \<open>attempt < maxAttempts\<close>.\<close>

lemma loopBody_continue_lt:
  "loopBody M a oc = SleepAndContinue \<Longrightarrow> ltMax a M"
  by (auto simp: loopBody_def tryBlock_def catchBlock_def Let_def
           split: sum.splits outcome.splits if_splits)

lemma fetchLoop_none: "\<not> leMax attempt M \<Longrightarrow> fetchLoop M b w rnd attempt = (None, [])"
  by (subst fetchLoop.simps) simp

lemma fetchLoop_continue:
  assumes "leMax attempt M" "loopBody M attempt (w attempt) = SleepAndContinue"
  shows "fetchLoop M b w rnd attempt =
           (fst (fetchLoop M b w rnd (attempt + 1)),
            Attempt attempt # Sleep (backoffDelay b attempt (rnd attempt))
              # snd (fetchLoop M b w rnd (attempt + 1)))"
  using assms fetchLoop.simps[of M b w rnd attempt] by (simp add: split_beta)

lemma fetchLoop_return:
  assumes "leMax attempt M" "loopBody M attempt (w attempt) = Return r"
  shows "fetchLoop M b w rnd attempt = (Some r, [Attempt attempt])"
  using assms fetchLoop.simps[of M b w rnd attempt] by simp

text \<open>An attempt within the budget is made.\<close>

lemma fetchLoop_starts:
  assumes "leMax attempt M"
  shows "\<exists>evs. snd (fetchLoop M b w rnd attempt) = Attempt attempt # evs"
proof (cases "loopBody M attempt (w attempt)")
  case SleepAndContinue
  then show ?thesis using fetchLoop_continue[of attempt M w b rnd] assms by simp
next
  case (Return r)
  then show ?thesis using fetchLoop_return[of attempt M w r b rnd] assms by simp
qed

text \<open>With a budget that is an integer, the loop returns from inside.\<close>

lemma fetchLoop_returns:
  "M = MaxFin (of_int k) \<Longrightarrow> attempt \<le> k \<Longrightarrow>
     \<exists>r evs. fetchLoop M b w rnd attempt = (Some r, evs)
       \<and> r \<noteq> Failure ''scrapingdog_unknown_error'' \<and> r \<noteq> Failure ''unknown_error''"
proof (induction M b w rnd attempt rule: fetchLoop.induct)
  case (1 M b w rnd attempt)
  have le: "leMax attempt M" using "1.prems" by simp
  show ?case
  proof (cases "loopBody M attempt (w attempt)")
    case (Return r)
    with loopBody_reason[of M attempt "w attempt"] fetchLoop_return[of attempt M w r b rnd] le
    show ?thesis
      by auto
  next
    case SleepAndContinue
    then have "attempt + 1 \<le> k"
      using loopBody_continue_lt[OF SleepAndContinue] "1.prems"(1) by simp
    from "1.IH"[OF le SleepAndContinue "1.prems"(1) this] obtain r evs where
      "fetchLoop M b w rnd (attempt + 1) = (Some r, evs)"
      "r \<noteq> Failure ''scrapingdog_unknown_error''" "r \<noteq> Failure ''unknown_error''"
      by blast
    with fetchLoop_continue[of attempt M w b rnd] le SleepAndContinue show ?thesis
      by simp
  qed
qed



text \<open>
  A budget of one and a half: the first attempt is within it, an attempt that does not
  return is followed by a sleep (\<open>1 < 1.5\<close>), and the loop then ends (\<open>2 <= 1.5\<close> is
  false) without a second attempt and without a \<open>return\<close>.
\<close>

lemma fractional_budget_run:
  assumes "loopBody (MaxFin (3 / 2)) 1 (w 1) = SleepAndContinue"
  shows "fetchLoop (MaxFin (3 / 2)) (Fin 800) w halfJitter 1 = (None, [Attempt 1, Sleep (Fin 925)])"
proof -
  have "fetchLoop (MaxFin (3 / 2)) (Fin 800) w halfJitter (1 + 1) = (None, [])"
    by (rule fetchLoop_none) simp
  then show ?thesis
    using fetchLoop_continue[of 1 "MaxFin (3 / 2)" w "Fin 800" halfJitter] assms
    by (simp add: halfJitter_def backoff_sample)
qed





text \<open>
  C7, as the code has it. When \<open>maxAttempts\<close> is an integer and the request of an attempt
  is answered with an HTTP success whose body is not parseable JSON (\<open>res.json()\<close>
  rejects), the fetcher sleeps once and makes the next attempt if attempts remain
  (\<open>attempt < maxAttempts\<close>), and otherwise returns the failure whose reason is the string
  \<open>scrapingdog_invalid_json\<close>.
\<close>

theorem invalid_json_retries_or_fails:
  assumes "attempt \<le> k" and "w attempt = Responded res" and "resOk res" and "jsonBody res = None"
  shows "fetchLoop (MaxFin (of_int k)) b w rnd attempt =
           (if attempt < k
            then (fst (fetchLoop (MaxFin (of_int k)) b w rnd (attempt + 1)),
                  Attempt attempt # Sleep (backoffDelay b attempt (rnd attempt))
                    # snd (fetchLoop (MaxFin (of_int k)) b w rnd (attempt + 1)))
            else (Some (Failure ''scrapingdog_invalid_json''), [Attempt attempt]))
       \<and> (attempt < k \<longrightarrow>
            (\<exists>evs. snd (fetchLoop (MaxFin (of_int k)) b w rnd (attempt + 1))
                      = Attempt (attempt + 1) # evs))"
proof -
  have le: "leMax attempt (MaxFin (of_int k))" using assms(1) by simp
  have lb: "loopBody (MaxFin (of_int k)) attempt (w attempt) =
          (if attempt < k then SleepAndContinue else Return (Failure ''scrapingdog_invalid_json''))"
    using assms by (simp add: loopBody_def tryBlock_def safeReadJson_def)
  show ?thesis
  proof (cases "attempt < k")
    case True
    then have "leMax (attempt + 1) (MaxFin (of_int k))" by simp
    from fetchLoop_starts[OF this, of b w rnd]
         fetchLoop_continue[of attempt "MaxFin (of_int k)" w b rnd] le lb True
    show ?thesis
      by simp
  next
    case False
    with fetchLoop_return[of attempt "MaxFin (of_int k)" w "Failure ''scrapingdog_invalid_json''" b rnd]
         le lb
    show ?thesis by simp
  qed
qed

theorem invalid_json_retries_or_fails_witness:
  "fetchLoop (MaxFin (of_int 3)) (Fin 800)
       (always (Responded \<lparr>status = 200, textBody = None, jsonBody = None\<rparr>)) halfJitter 3 =
     (Some (Failure ''scrapingdog_invalid_json''), [Attempt 3])
   \<and> fetchLoop (MaxFin (of_int 3)) (Fin 800)
       (always (Responded \<lparr>status = 200, textBody = None, jsonBody = None\<rparr>)) halfJitter 1 =
     (Some (Failure ''scrapingdog_invalid_json''),
      [Attempt 1, Sleep (Fin 925), Attempt 2, Sleep (Fin 1725), Attempt 3])"
  using invalid_json_retries_or_fails
          [of 3 3 "always (Responded \<lparr>status = 200, textBody = None, jsonBody = None\<rparr>)"
              "\<lparr>status = 200, textBody = None, jsonBody = None\<rparr>" "Fin 800" halfJitter]
        invalid_json_retries_or_fails
          [of 2 3 "always (Responded \<lparr>status = 200, textBody = None, jsonBody = None\<rparr>)"
              "\<lparr>status = 200, textBody = None, jsonBody = None\<rparr>" "Fin 800" halfJitter]
        invalid_json_retries_or_fails
          [of 1 3 "always (Responded \<lparr>status = 200, textBody = None, jsonBody = None\<rparr>)"
              "\<lparr>status = 200, textBody = None, jsonBody = None\<rparr>" "Fin 800" halfJitter]
  by (simp add: always_def resOk_def halfJitter_def backoff_sample)

text \<open>
  C7, as the claim states it, fails in two ways. With \<open>maxAttempts = 1.5\<close> an unparseable
  body at the first attempt is followed by a sleep and then by the end of the loop: no
  retry is made and the result is \<open>scrapingdog_unknown_error\<close>. And where the failure is
  returned (here with \<open>maxAttempts = 1\<close>), its reason is the string
  \<open>scrapingdog_invalid_json\<close>, not \<open>invalid_json\<close>.
\<close>

theorem invalid_json_counterexample:
  "fetchTranscriptFromScrapingDog (Some ''key'') (MaxFin (3 / 2)) (Fin 800)
       (everyVideo (always (Responded \<lparr>status = 200, textBody = None, jsonBody = None\<rparr>)))
       halfJitter ''abc123''
     = Inr (Failure ''scrapingdog_unknown_error'', [Attempt 1, Sleep (Fin 925)])
   \<and> fetchTranscriptFromScrapingDog (Some ''key'') (MaxFin 1) (Fin 800)
       (everyVideo (always (Responded \<lparr>status = 200, textBody = None, jsonBody = None\<rparr>)))
       halfJitter ''abc123''
     = Inr (Failure ''scrapingdog_invalid_json'', [Attempt 1])
   \<and> ''scrapingdog_invalid_json'' \<noteq> ''invalid_json''"
proof -
  let ?w = "always (Responded \<lparr>status = 200, textBody = None, jsonBody = None\<rparr>)"
  have "fetchLoop (MaxFin (3 / 2)) (Fin 800) ?w halfJitter 1 = (None, [Attempt 1, Sleep (Fin 925)])"
    by (rule fractional_budget_run)
       (simp add: loopBody_def tryBlock_def always_def resOk_def safeReadJson_def)
  moreover have "fetchLoop (MaxFin 1) (Fin 800) ?w halfJitter 1
                   = (Some (Failure ''scrapingdog_invalid_json''), [Attempt 1])"
    by (rule fetchLoop_return)
       (simp_all add: loopBody_def tryBlock_def always_def resOk_def safeReadJson_def)
  ultimately show ?thesis
    by (simp add: fetchTranscriptFromScrapingDog_def everyVideo_def)
qed

text \<open>
  C10, as the code has it. Whenever \<open>maxAttempts\<close> is an integer that is at least 1, the
  loop ends with a \<open>return\<close> of its own, so the statement after the loop is not reached,
  and the result of \<open>fetchTranscriptFromScrapingDog\<close> never has the reason
  \<open>scrapingdog_unknown_error\<close> (nor the bare \<open>unknown_error\<close>).
\<close>

theorem unknown_error_unreachable:
  assumes "1 \<le> k"
  shows "fst (fetchLoop (MaxFin (of_int k)) b (world vid) rnd 1) \<noteq> None
       \<and> fetchTranscriptFromScrapingDog apiKey (MaxFin (of_int k)) b world rnd vid
           \<noteq> Inr (Failure ''scrapingdog_unknown_error'', evs)
       \<and> fetchTranscriptFromScrapingDog apiKey (MaxFin (of_int k)) b world rnd vid
           \<noteq> Inr (Failure ''unknown_error'', evs)"
proof -
  obtain r evs' where "fetchLoop (MaxFin (of_int k)) b (world vid) rnd 1 = (Some r, evs')"
    "r \<noteq> Failure ''scrapingdog_unknown_error''" "r \<noteq> Failure ''unknown_error''"
    using fetchLoop_returns[OF refl assms] by blast
  then show ?thesis
    by (simp add: fetchTranscriptFromScrapingDog_def)
qed

theorem unknown_error_unreachable_witness:
  "(1::int) \<le> 3
   \<and> fst (fetchLoop (MaxFin (of_int 3)) (Fin 800)
            (everyVideo (always (FetchRejects (Exn ''TypeError'' ''fetch failed''))) ''abc123'')
            halfJitter 1) \<noteq> None
   \<and> fetchTranscriptFromScrapingDog (Some ''key'') (MaxFin (of_int 3)) (Fin 800)
        (everyVideo (always (FetchRejects (Exn ''TypeError'' ''fetch failed'')))) halfJitter ''abc123''
        \<noteq> Inr (Failure ''scrapingdog_unknown_error'', [])
   \<and> fetchTranscriptFromScrapingDog (Some ''key'') (MaxFin (of_int 3)) (Fin 800)
        (everyVideo (always (FetchRejects (Exn ''TypeError'' ''fetch failed'')))) halfJitter ''abc123''
        \<noteq> Inr (Failure ''unknown_error'', [])"
  using unknown_error_unreachable
          [of 3 "Fin 800" "everyVideo (always (FetchRejects (Exn ''TypeError'' ''fetch failed'')))"
              "''abc123''" halfJitter "Some ''key''" "[]"]
  by simp

text \<open>
  C10, as the claim states it, fails: \<open>maxAttempts = 1.5\<close> is at least 1, and when the
  only attempt fails the code sleeps, leaves the loop and returns
  \<open>scrapingdog_unknown_error\<close>.
\<close>

theorem unknown_error_counterexample:
  "(1::real) \<le> 3 / 2
   \<and> fetchTranscriptFromScrapingDog (Some ''key'') (MaxFin (3 / 2)) (Fin 800)
        (everyVideo (always (FetchRejects (Exn ''TypeError'' ''fetch failed'')))) halfJitter ''abc123''
      = Inr (Failure ''scrapingdog_unknown_error'', [Attempt 1, Sleep (Fin 925)])"
proof -
  have "fetchLoop (MaxFin (3 / 2)) (Fin 800)
          (always (FetchRejects (Exn ''TypeError'' ''fetch failed''))) halfJitter 1
        = (None, [Attempt 1, Sleep (Fin 925)])"
    by (rule fractional_budget_run) (simp add: loopBody_def tryBlock_def catchBlock_def always_def)
  then show ?thesis
    by (simp add: fetchTranscriptFromScrapingDog_def everyVideo_def)
qed









section \<open>Deduplication and the assembler: proofs\<close>

lemma mset_insertBy: "mset (insertBy cmp x ys) = add_mset x (mset ys)"
  by (induction ys) auto

lemma mset_jsSort: "mset (jsSort cmp xs) = mset xs"
  by (induction xs) (auto simp: jsSort_def mset_insertBy)

lemma length_jsSort: "length (jsSort cmp xs) = length xs"
  using mset_jsSort[of cmp xs] by (metis size_mset)

lemma set_jsSort: "set (jsSort cmp xs) = set xs"
  using mset_jsSort[of cmp xs] by (metis set_mset_mset)

lemma set_insertBy: "set (insertBy cmp x ys) = insert x (set ys)"
  using mset_insertBy[of cmp x ys] by (metis set_mset_mset set_mset_add_mset_insert)

lemma sorted_insertBy:
  "sorted_wrt (\<lambda>a b. key b \<le> key a) ys \<Longrightarrow>
     sorted_wrt (\<lambda>a b. (key b :: string) \<le> key a) (insertBy (newestFirst key) x ys)"
proof (induction ys)
  case Nil
  then show ?case by simp
next
  case (Cons y ys)
  show ?case
  proof (cases "key x < key y")
    case True
    with Cons show ?thesis
      by (auto simp: newestFirst_def set_insertBy)
  next
    case False
    then have "key y \<le> key x" by simp
    with Cons.prems False show ?thesis
      by (auto simp: newestFirst_def)
  qed
qed

lemma sorted_jsSort:
  "sorted_wrt (\<lambda>a b. (key b :: string) \<le> key a) (jsSort (newestFirst key) xs)"
  by (induction xs) (auto simp: jsSort_def sorted_insertBy)

lemma mapSet_keys:
  "map fst (mapSet k v m) = (if k \<in> set (map fst m) then map fst m else map fst m @ [k])"
  by (induction m) (simp, force)

lemma mapSet_map_of_at: "map_of (mapSet k v m) x = ((map_of m)(k \<mapsto> v)) x"
  by (induction m) auto

lemma values_by_keys:
  "distinct (map fst m) \<Longrightarrow> map snd m = map (\<lambda>k. the (map_of m k)) (map fst m)"
proof (induction m)
  case Nil
  then show ?case by simp
next
  case (Cons a m)
  obtain k v where a: "a = (k, v)" by (cases a)
  from Cons.prems a have k: "k \<notin> set (map fst m)" and d: "distinct (map fst m)"
    by simp_all
  have "map (\<lambda>k'. the (map_of ((k, v) # m) k')) (map fst m)
          = map (\<lambda>k'. the (map_of m k')) (map fst m)"
    using k by (intro map_cong) auto
  with Cons.IH[OF d] a show ?case by simp
qed

text \<open>The \<open>Map\<close> after the loop: its keys are the identifiers seen, each once, and each
  key holds the record inserted last under it.\<close>

lemma dedup_invariant:
  "distinct (map fst (fold (\<lambda>v m. mapSet (videoId v) v m) vs []))
   \<and> set (map fst (fold (\<lambda>v m. mapSet (videoId v) v m) vs [])) = set (map videoId vs)
   \<and> (\<forall>i \<in> set (map videoId vs).
         map_of (fold (\<lambda>v m. mapSet (videoId v) v m) vs []) i = Some (lastInserted vs i))"
proof (induction vs rule: rev_induct)
  case Nil
  then show ?case by simp
next
  case (snoc v vs)
  let ?m = "fold (\<lambda>v m. mapSet (videoId v) v m) vs []"
  have f: "fold (\<lambda>v m. mapSet (videoId v) v m) (vs @ [v]) [] = mapSet (videoId v) v ?m"
    by simp
  have 1: "distinct (map fst (mapSet (videoId v) v ?m))"
    using snoc by (simp add: mapSet_keys)
  have 2: "set (map fst (mapSet (videoId v) v ?m)) = set (map videoId (vs @ [v]))"
    using snoc by (auto simp: mapSet_keys)
  have 3: "\<forall>i \<in> set (map videoId (vs @ [v])).
             map_of (mapSet (videoId v) v ?m) i = Some (lastInserted (vs @ [v]) i)"
    using snoc by (auto simp: mapSet_map_of_at lastInserted_def)
  show ?case
    unfolding f using 1 2 3 by blast
qed

lemma dedup_values:
  "mset (map snd (fold (\<lambda>v m. mapSet (videoId v) v m) vs []))
     = image_mset (lastInserted vs) (mset (remdups (map videoId vs)))"
proof -
  let ?m = "fold (\<lambda>v m. mapSet (videoId v) v m) vs []"
  have d: "distinct (map fst ?m)" and s: "set (map fst ?m) = set (map videoId vs)"
    and l: "\<forall>i \<in> set (map videoId vs). map_of ?m i = Some (lastInserted vs i)"
    using dedup_invariant[of vs] by blast+
  have "map snd ?m = map (\<lambda>k. the (map_of ?m k)) (map fst ?m)"
    using values_by_keys[OF d] .
  also have "\<dots> = map (lastInserted vs) (map fst ?m)"
    using l s by (intro map_cong) auto
  finally have "mset (map snd ?m) = image_mset (lastInserted vs) (mset (map fst ?m))"
    by (metis mset_map)
  moreover have "mset (map fst ?m) = mset (remdups (map videoId vs))"
    using set_eq_iff_mset_eq_distinct[OF d distinct_remdups, of "map videoId vs"] s
    by (metis set_remdups)
  ultimately show ?thesis by simp
qed

lemma lastInserted_id:
  assumes "i \<in> set (map videoId vs)"
  shows "videoId (lastInserted vs i) = i"
proof -
  have ne: "filter (\<lambda>v. videoId v = i) vs \<noteq> []"
    using assms by (auto simp: filter_empty_conv)
  from last_in_set[OF ne] show ?thesis
    by (simp add: lastInserted_def)
qed

lemma slice0_length: "0 \<le> cap \<Longrightarrow> int (length (slice0 cap xs)) \<le> cap"
  by (auto simp: slice0_def Let_def)

lemma slice0_all: "int (length xs) \<le> cap \<Longrightarrow> slice0 cap xs = xs"
  by (auto simp: slice0_def Let_def)

lemma scan_lengths:
  "scanVideos f s vs sm sk = Inr (sm', sk') \<Longrightarrow>
     length sm' + length sk' = length sm + length sk + length vs"
proof (induction vs arbitrary: sm sk)
  case Nil
  then show ?case by simp
next
  case (Cons v vs)
  then show ?case
    by (auto split: sum.splits transcript_result.splits)
qed

lemma scan_keeps:
  "scanVideos f s vs sm sk = Inr (sm', sk') \<Longrightarrow> set sk \<subseteq> set sk'"
proof (induction vs arbitrary: sm sk)
  case Nil
  then show ?case by simp
next
  case (Cons v vs)
  then show ?case
    by (fastforce split: sum.splits transcript_result.splits)
qed

lemma scan_skipped:
  "scanVideos f s vs sm sk = Inr (sm', sk') \<Longrightarrow> v \<in> set vs \<Longrightarrow> f (videoId v) = Inr (Failure r)
     \<Longrightarrow> skippedItem v r \<in> set sk'"
proof (induction vs arbitrary: sm sk)
  case Nil
  then show ?case by simp
next
  case (Cons x vs)
  show ?case
  proof (cases "x = v")
    case True
    with Cons.prems have "scanVideos f s vs sm (sk @ [skippedItem v r]) = Inr (sm', sk')"
      by simp
    from scan_keeps[OF this] show ?thesis by simp
  next
    case False
    with Cons.prems have "v \<in> set vs" by simp
    with Cons.prems(1,3) Cons.IH show ?thesis
      by (auto split: sum.splits transcript_result.splits)
  qed
qed

text \<open>
  C5. For every finite sequence of video records collected over a group's channels, the
  deduplicated output holds, for each distinct video identifier of the input, exactly the
  record inserted last under it (and nothing else), no identifier twice, and is sorted by
  the publication timestamp, newest first (the timestamps are compared as strings, as the
  comparator does).
\<close>

theorem dedup_last_write_wins_sorted:
  "mset (dedupVideos allVideos)
     = image_mset (lastInserted allVideos) (mset (remdups (map videoId allVideos)))
   \<and> distinct (map videoId (dedupVideos allVideos))
   \<and> sorted_wrt (\<lambda>a b. publishedAt b \<le> publishedAt a) (dedupVideos allVideos)"
proof -
  have m: "mset (dedupVideos allVideos)
     = image_mset (lastInserted allVideos) (mset (remdups (map videoId allVideos)))"
    by (simp add: dedupVideos_def mset_jsSort dedup_values del: mset_map)
  have "mset (map videoId (dedupVideos allVideos))
          = image_mset (\<lambda>i. videoId (lastInserted allVideos i)) (mset (remdups (map videoId allVideos)))"
    using m by (simp add: image_mset.compositionality comp_def)
  also have "\<dots> = image_mset (\<lambda>i. i) (mset (remdups (map videoId allVideos)))"
    by (intro image_mset_cong) (simp add: lastInserted_id)
  finally have "mset (map videoId (dedupVideos allVideos)) = mset (remdups (map videoId allVideos))"
    by simp
  then have "distinct (map videoId (dedupVideos allVideos))"
    using mset_eq_imp_distinct_iff distinct_remdups by blast
  with m show ?thesis
    by (simp add: dedupVideos_def sorted_jsSort)
qed

lemma scan_counts:
  "scanVideos f s vs sm sk = Inr (sm', sk') \<Longrightarrow>
     length sm' = length sm + length (filter (hasTranscript f) vs)
     \<and> length sk' = length sk + length (filter (\<lambda>v. \<not> hasTranscript f v) vs)"
proof (induction vs arbitrary: sm sk)
  case Nil
  then show ?case by simp
next
  case (Cons v vs)
  then show ?case
    by (auto simp: hasTranscript_def split: sum.splits transcript_result.splits)
qed

text \<open>
  C3. Whenever the assembler produces the digest of a group (no exception of the fetcher
  or the summarizer ended the run), every considered video, that is every video of the
  deduplicated set, is counted once: in \<open>summarizedCount\<close> when the fetcher has a
  transcript for it and in \<open>skippedCount\<close> when it has not. So
  \<open>summarizedCount + skippedCount\<close> is the number of considered videos, which is also
  \<open>totalNew\<close>, whatever the cap.
\<close>

theorem counts_partition_considered:
  assumes "assembleGroup cap lbl fetchT summarize allVideos = Inr d"
  shows "summarizedCount d = length (filter (hasTranscript fetchT) (dedupVideos allVideos))
       \<and> skippedCount d = length (filter (\<lambda>v. \<not> hasTranscript fetchT v) (dedupVideos allVideos))
       \<and> summarizedCount d + skippedCount d = length (dedupVideos allVideos)
       \<and> totalNew d = length (dedupVideos allVideos)"
proof -
  obtain sm sk where sc: "scanVideos fetchT summarize (dedupVideos allVideos) [] [] = Inr (sm, sk)"
    and c: "summarizedCount d = length sm" "skippedCount d = length sk"
      "totalNew d = length (dedupVideos allVideos)"
    using assms by (auto simp: assembleGroup_def Let_def split: sum.splits prod.splits)
  from scan_counts[OF sc] scan_lengths[OF sc] c show ?thesis
    by simp
qed

theorem counts_partition_considered_witness:
  "assembleGroup 7 ''AI News'' sampleFetch sampleSummarize [videoA, videoB, videoA'] =
     Inr \<lparr> label = ''AI News'', totalNew = 2, summarizedCount = 1, skippedCount = 1,
           notShownCount = 0,
           items = [skippedItem videoB ''no_transcript'',
                    summarizedItem videoA'
                      \<lparr> one_liner = ''About Intro'', key_points = [], who_should_watch = ''Anyone'' \<rparr>] \<rparr>
   \<and> (1::nat) = length (filter (hasTranscript sampleFetch) (dedupVideos [videoA, videoB, videoA']))
   \<and> (1::nat) = length (filter (\<lambda>v. \<not> hasTranscript sampleFetch v) (dedupVideos [videoA, videoB, videoA']))
   \<and> (1::nat) + 1 = length (dedupVideos [videoA, videoB, videoA'])"
proof -
  have h: "assembleGroup 7 ''AI News'' sampleFetch sampleSummarize [videoA, videoB, videoA'] =
     Inr \<lparr> label = ''AI News'', totalNew = 2, summarizedCount = 1, skippedCount = 1,
           notShownCount = 0,
           items = [skippedItem videoB ''no_transcript'',
                    summarizedItem videoA'
                      \<lparr> one_liner = ''About Intro'', key_points = [], who_should_watch = ''Anyone'' \<rparr>] \<rparr>"
    by code_simp
  show ?thesis
    using h counts_partition_considered[OF h] by simp
qed

text \<open>
  C4, as the code has it. For every group and every configured cap that is not negative,
  the displayed sequence has at most \<open>cap\<close> items; and for every cap, \<open>notShownCount\<close> is
  \<open>max 0 (considered - displayed)\<close>, the considered videos being the deduplicated set.
\<close>

theorem displayed_within_nonnegative_cap:
  assumes "cap = getCapPerSection freq capWeekly capDaily"
    and "assembleGroup cap lbl fetchT summarize allVideos = Inr d"
  shows "(0 \<le> cap \<longrightarrow> int (length (items d)) \<le> cap)
       \<and> notShownCount d = max 0 (int (length (dedupVideos allVideos)) - int (length (items d)))"
  using assms(2) scan_lengths[of fetchT summarize "dedupVideos allVideos" "[]" "[]"]
    slice0_length[of cap]
  by (auto simp: assembleGroup_def Let_def length_jsSort split: sum.splits prod.splits)

theorem displayed_within_nonnegative_cap_witness:
  "(1::int) = getCapPerSection None None (Some 1)
   \<and> assembleGroup 1 ''AI News'' sampleFetch sampleSummarize [videoA, videoB] =
       Inr \<lparr> label = ''AI News'', totalNew = 2, summarizedCount = 1, skippedCount = 1,
             notShownCount = 1, items = [skippedItem videoB ''no_transcript''] \<rparr>
   \<and> (0::int) \<le> 1
   \<and> int (length [skippedItem videoB ''no_transcript'']) \<le> 1
   \<and> (1::int) = max 0 (int (length (dedupVideos [videoA, videoB]))
                          - int (length [skippedItem videoB ''no_transcript'']))"
proof -
  have c: "(1::int) = getCapPerSection None None (Some 1)"
    by (simp add: getCapPerSection_def)
  have h: "assembleGroup 1 ''AI News'' sampleFetch sampleSummarize [videoA, videoB] =
       Inr \<lparr> label = ''AI News'', totalNew = 2, summarizedCount = 1, skippedCount = 1,
             notShownCount = 1, items = [skippedItem videoB ''no_transcript''] \<rparr>"
    by code_simp
  show ?thesis
    using c h displayed_within_nonnegative_cap[OF c h] by simp
qed

text \<open>
  C4, as the claim states it, fails for a negative cap: with
  \<open>CAP_DAILY_PER_SECTION=-1\<close> the cap is \<open>-1\<close>, \<open>slice(0, -1)\<close> drops only the last of
  the two items, and one item, more than the cap, is displayed.
\<close>

theorem negative_cap_counterexample:
  "getCapPerSection None None (Some (- 1)) = - 1
   \<and> assembleGroup (- 1) ''AI News'' sampleFetch sampleSummarize [videoA, videoB] =
       Inr \<lparr> label = ''AI News'', totalNew = 2, summarizedCount = 1, skippedCount = 1,
             notShownCount = 1, items = [skippedItem videoB ''no_transcript''] \<rparr>
   \<and> \<not> int (length [skippedItem videoB ''no_transcript'']) \<le> - 1"
  by code_simp

lemma sentinel_returns_at_once:
  assumes "leMax a M" and "w a = Responded res" and "resOk res"
    and "jsonBody res = Some noTranscriptSentinel"
  shows "fetchLoop M b w rnd a = (Some (Failure ''no_transcript''), [Attempt a])"
proof -
  have "loopBody M a (w a) = Return (Failure ''no_transcript'')"
    using assms(2-4)
    by (simp add: loopBody_def tryBlock_def safeReadJson_def noTranscriptSentinel_def
                  readTranscripts_def)
  then show ?thesis
    using assms(1) fetchLoop.simps[of M b w rnd a] by simp
qed

text \<open>Every item the loop over the videos builds is the item of one of the videos: the
  summarized item when the fetcher has a transcript, the skipped item of the fetcher's
  reason when it has not.\<close>

lemma scan_items:
  "scanVideos f s vs sm sk = Inr (sm', sk') \<Longrightarrow> x \<in> set (sm' @ sk') \<Longrightarrow>
     x \<in> set (sm @ sk)
     \<or> (\<exists>u\<in>set vs. (\<exists>r. f (videoId u) = Inr (Failure r) \<and> x = skippedItem u r)
                   \<or> (\<exists>t n l sx. f (videoId u) = Inr (Success t n l) \<and> x = summarizedItem u sx))"
proof (induction vs arbitrary: sm sk)
  case Nil
  then show ?case by simp
next
  case (Cons v vs)
  show ?case
  proof (cases "f (videoId v)")
    case (Inl e)
    with Cons.prems show ?thesis by simp
  next
    case (Inr res)
    show ?thesis
    proof (cases res)
      case (Failure r)
      with Inr Cons.prems have "scanVideos f s vs sm (sk @ [skippedItem v r]) = Inr (sm', sk')"
        by simp
      from Cons.IH[OF this Cons.prems(2)] Inr Failure show ?thesis
        by auto
    next
      case (Success t n l)
      with Inr Cons.prems obtain sx where
        "scanVideos f s vs (sm @ [summarizedItem v sx]) sk = Inr (sm', sk')"
        by (auto split: sum.splits)
      from Cons.IH[OF this Cons.prems(2)] Inr Success show ?thesis
        by auto
    qed
  qed
qed

lemma slice0_subset: "set (slice0 cap xs) \<subseteq> set xs"
  by (simp add: slice0_def Let_def set_take_subset)

text \<open>
  C9. When the provider answers the first request for a video with an HTTP success whose
  body is \<open>{transcripts: ["This video has no transcripts"]}\<close>, the fetcher returns the
  failure \<open>no_transcript\<close> after that one request, with no sleep and no second attempt
  (and at whatever attempt that answer arrives, the loop returns the failure at once).
  In the digest of a group that considers the video, whatever the cap: the item the
  assembler builds for the video is the skipped item with the reason text
  \<open>This video has no transcript/captions available on YouTube.\<close>, it is among the items
  that are sorted and cut to the cap, every item built for the video and every displayed
  item of the video is that item, and it is displayed when the cap cuts nothing off.
\<close>

theorem no_transcript_sentinel_skipped:
  assumes "apiKey \<noteq> None" and "apiKey \<noteq> Some []" and "leMax 1 M"
    and "world (videoId v) 1 = Responded res" and "resOk res"
    and "jsonBody res = Some noTranscriptSentinel"
    and "v \<in> set (dedupVideos allVideos)"
    and "assembleGroup cap lbl (callFetcher apiKey M b world rnd) summarize allVideos = Inr d"
  shows "fetchTranscriptFromScrapingDog apiKey M b world rnd (videoId v)
           = Inr (Failure ''no_transcript'', [Attempt 1])
       \<and> (\<forall>a. leMax a M \<and> world (videoId v) a = Responded res
              \<longrightarrow> fetchLoop M b (world (videoId v)) rnd a
                    = (Some (Failure ''no_transcript''), [Attempt a]))
       \<and> (\<exists>sm sk. scanVideos (callFetcher apiKey M b world rnd) summarize (dedupVideos allVideos) [] []
                     = Inr (sm, sk)
            \<and> \<lparr> itemStatus = ''skipped'', itemVideo = v, itemSummary = None,
                 itemReason = Some ''This video has no transcript/captions available on YouTube.'' \<rparr>
                \<in> set sk
            \<and> (\<forall>x\<in>set (sm @ sk). itemVideo x = v \<longrightarrow>
                 x = \<lparr> itemStatus = ''skipped'', itemVideo = v, itemSummary = None,
                       itemReason = Some ''This video has no transcript/captions available on YouTube.'' \<rparr>)
            \<and> items d = slice0 cap (jsSort (newestFirst (\<lambda>x. publishedAt (itemVideo x))) (sm @ sk)))
       \<and> (\<forall>x\<in>set (items d). itemVideo x = v \<longrightarrow>
            x = \<lparr> itemStatus = ''skipped'', itemVideo = v, itemSummary = None,
                  itemReason = Some ''This video has no transcript/captions available on YouTube.'' \<rparr>)
       \<and> (int (length (dedupVideos allVideos)) \<le> cap \<longrightarrow>
            \<lparr> itemStatus = ''skipped'', itemVideo = v, itemSummary = None,
               itemReason = Some ''This video has no transcript/captions available on YouTube.'' \<rparr>
              \<in> set (items d))"
proof -
  let ?f = "callFetcher apiKey M b world rnd"
  let ?it = "\<lparr> itemStatus = ''skipped'', itemVideo = v, itemSummary = None,
               itemReason = Some ''This video has no transcript/captions available on YouTube.'' \<rparr>"
  have it: "skippedItem v ''no_transcript'' = ?it"
    by (simp add: skippedItem_def)
  have g: "\<forall>a. leMax a M \<and> world (videoId v) a = Responded res
              \<longrightarrow> fetchLoop M b (world (videoId v)) rnd a
                    = (Some (Failure ''no_transcript''), [Attempt a])"
    using sentinel_returns_at_once[of _ M "world (videoId v)" res b rnd] assms(5,6) by blast
  have "fetchLoop M b (world (videoId v)) rnd 1 = (Some (Failure ''no_transcript''), [Attempt 1])"
    using sentinel_returns_at_once[of 1 M "world (videoId v)" res b rnd] assms(3,4,5,6) by blast
  then have f: "fetchTranscriptFromScrapingDog apiKey M b world rnd (videoId v)
                  = Inr (Failure ''no_transcript'', [Attempt 1])"
    using assms(1,2) by (simp add: fetchTranscriptFromScrapingDog_def)
  then have fv: "?f (videoId v) = Inr (Failure ''no_transcript'')"
    by (simp add: callFetcher_def)
  obtain sm sk where sc: "scanVideos ?f summarize (dedupVideos allVideos) [] [] = Inr (sm, sk)"
    and d: "items d = slice0 cap (jsSort (newestFirst (\<lambda>x. publishedAt (itemVideo x))) (sm @ sk))"
    using assms(8) by (auto simp: assembleGroup_def Let_def split: sum.splits prod.splits)
  have mem: "?it \<in> set sk"
    using scan_skipped[OF sc assms(7) fv] it by simp
  have all: "\<forall>x\<in>set (sm @ sk). itemVideo x = v \<longrightarrow> x = ?it"
  proof (intro ballI impI)
    fix x assume x: "x \<in> set (sm @ sk)" and xv: "itemVideo x = v"
    from scan_items[OF sc x]
    have "\<exists>u. (\<exists>r. ?f (videoId u) = Inr (Failure r) \<and> x = skippedItem u r)
         \<or> (\<exists>t n l sx. ?f (videoId u) = Inr (Success t n l) \<and> x = summarizedItem u sx)"
      by simp blast
    then show "x = ?it"
      using xv fv it by (auto simp: skippedItem_def summarizedItem_def)
  qed
  have sub: "set (items d) \<subseteq> set (sm @ sk)"
    using slice0_subset[of cap "jsSort (newestFirst (\<lambda>x. publishedAt (itemVideo x))) (sm @ sk)"]
    by (simp add: d set_jsSort)
  have shown: "\<forall>x\<in>set (items d). itemVideo x = v \<longrightarrow> x = ?it"
    using all sub by blast
  have full: "int (length (dedupVideos allVideos)) \<le> cap \<longrightarrow> ?it \<in> set (items d)"
  proof
    assume c: "int (length (dedupVideos allVideos)) \<le> cap"
    have "length (sm @ sk) = length (dedupVideos allVideos)"
      using scan_lengths[OF sc] by simp
    then have "items d = jsSort (newestFirst (\<lambda>x. publishedAt (itemVideo x))) (sm @ sk)"
      using d c by (simp add: slice0_all length_jsSort)
    with mem show "?it \<in> set (items d)"
      by (simp add: set_jsSort)
  qed
  from sc mem all d have ex: "\<exists>sm sk. scanVideos ?f summarize (dedupVideos allVideos) [] []
                     = Inr (sm, sk) \<and> ?it \<in> set sk
            \<and> (\<forall>x\<in>set (sm @ sk). itemVideo x = v \<longrightarrow> x = ?it)
            \<and> items d = slice0 cap (jsSort (newestFirst (\<lambda>x. publishedAt (itemVideo x))) (sm @ sk))"
    by blast
  from f g ex shown full show ?thesis
    by (intro conjI)
qed

theorem no_transcript_sentinel_skipped_witness:
  "fetchTranscriptFromScrapingDog (Some ''key'') (MaxFin 3) (Fin 800)
       (everyVideo (always (Responded \<lparr>status = 200, textBody = None,
                                        jsonBody = Some noTranscriptSentinel\<rparr>)))
       halfJitter (videoId videoA)
     = Inr (Failure ''no_transcript'', [Attempt 1])
   \<and> assembleGroup 1 ''AI News''
       (callFetcher (Some ''key'') (MaxFin 3) (Fin 800)
          (everyVideo (always (Responded \<lparr>status = 200, textBody = None,
                                           jsonBody = Some noTranscriptSentinel\<rparr>)))
          halfJitter)
       sampleSummarize [videoA, videoB]
     = Inr \<lparr> label = ''AI News'', totalNew = 2, summarizedCount = 0, skippedCount = 2,
             notShownCount = 1, items = [skippedItem videoB ''no_transcript''] \<rparr>
   \<and> scanVideos
       (callFetcher (Some ''key'') (MaxFin 3) (Fin 800)
          (everyVideo (always (Responded \<lparr>status = 200, textBody = None,
                                           jsonBody = Some noTranscriptSentinel\<rparr>)))
          halfJitter)
       sampleSummarize (dedupVideos [videoA, videoB]) [] []
     = Inr ([], [skippedItem videoB ''no_transcript'', skippedItem videoA ''no_transcript''])
   \<and> skippedItem videoA ''no_transcript''
     = \<lparr> itemStatus = ''skipped'', itemVideo = videoA, itemSummary = None,
         itemReason = Some ''This video has no transcript/captions available on YouTube.'' \<rparr>
   \<and> itemVideo (skippedItem videoB ''no_transcript'') \<noteq> videoA"
proof -
  let ?w = "everyVideo (always (Responded \<lparr>status = 200, textBody = None,
                                           jsonBody = Some noTranscriptSentinel\<rparr>))"
  have h: "assembleGroup 1 ''AI News'' (callFetcher (Some ''key'') (MaxFin 3) (Fin 800) ?w halfJitter)
             sampleSummarize [videoA, videoB] =
           Inr \<lparr> label = ''AI News'', totalNew = 2, summarizedCount = 0, skippedCount = 2,
                 notShownCount = 1, items = [skippedItem videoB ''no_transcript''] \<rparr>"
    by code_simp
  have s: "scanVideos (callFetcher (Some ''key'') (MaxFin 3) (Fin 800) ?w halfJitter)
             sampleSummarize (dedupVideos [videoA, videoB]) [] []
           = Inr ([], [skippedItem videoB ''no_transcript'', skippedItem videoA ''no_transcript''])"
    by code_simp
  have v: "videoA \<in> set (dedupVideos [videoA, videoB])"
    by code_simp
  have n: "itemVideo (skippedItem videoB ''no_transcript'') \<noteq> videoA"
    by code_simp
  have w: "?w (videoId videoA) 1
             = Responded \<lparr>status = 200, textBody = None, jsonBody = Some noTranscriptSentinel\<rparr>"
    by (simp add: everyVideo_def always_def)
  have r: "resOk \<lparr>status = 200, textBody = None, jsonBody = Some noTranscriptSentinel\<rparr>"
    by (simp add: resOk_def)
  have l: "leMax 1 (MaxFin 3)"
    by simp
  show ?thesis
    using no_transcript_sentinel_skipped[OF _ _ l w r _ v h] h s n
    by (simp add: skippedItem_def)
qed

section \<open>The summary normalizer: proofs\<close>

lemma trim_idem: "trim (trim s) = trim s"
proof -
  let ?u = "dropWhile isSpace s"
  let ?w = "rev (dropWhile isSpace (rev ?u))"
  have "dropWhile isSpace ?w = ?w"
  proof (cases "?w = []")
    case True
    then show ?thesis by (simp only: dropWhile.simps)
  next
    case False
    have "rev ?u = takeWhile isSpace (rev ?u) @ dropWhile isSpace (rev ?u)" by simp
    then have "?u = ?w @ rev (takeWhile isSpace (rev ?u))"
      by (metis rev_append rev_rev_ident)
    with False have "hd ?w = hd ?u" and "?u \<noteq> []"
      by (metis hd_append2, metis append_is_Nil_conv)
    then have "\<not> isSpace (hd ?w)"
      using hd_dropWhile[of isSpace s] by simp
    then show ?thesis
      by (simp add: dropWhile_eq_self_iff)
  qed
  then have "rev (dropWhile isSpace (rev (dropWhile isSpace ?w))) = rev (dropWhile isSpace (rev ?w))"
    by simp
  also have "\<dots> = ?w" by simp
  finally show ?thesis by (simp add: trim_def)
qed

text \<open>A falsy field is replaced by the empty string before the conversion.\<close>

lemma jsOr_convert:
  assumes "convertible v"
  shows "\<exists>s. jsToString (jsOr v (JStr [])) = Inr s \<and> (\<not> truthy v \<longrightarrow> s = [])"
  using assms by (auto simp: jsOr_def convertible_def split: sum.splits)

lemma mapE_points:
  "list_all convertible xs \<Longrightarrow>
     \<exists>ps. mapE (\<lambda>x. case jsToString x of Inl e \<Rightarrow> Inl e | Inr s \<Rightarrow> Inr (trim s)) xs = Inr ps
         \<and> (\<forall>p \<in> set ps. trim p = p)"
proof (induction xs)
  case Nil
  then show ?case by simp
next
  case (Cons x xs)
  from Cons.prems have "list_all convertible xs" by simp
  from Cons.IH[OF this] obtain ps where ps:
    "mapE (\<lambda>x. case jsToString x of Inl e \<Rightarrow> Inl e | Inr s \<Rightarrow> Inr (trim s)) xs = Inr ps"
    "\<forall>p \<in> set ps. trim p = p"
    by blast
  from Cons.prems obtain s where s: "jsToString x = Inr s"
    by (auto simp: convertible_def split: sum.splits)
  show ?case
    using ps s by (simp add: trim_idem)
qed

text \<open>
  C2, as the code has it. For every input value (\<open>null\<close>, objects with missing fields
  and a non-array \<open>key_points\<close> included) whose fields \<open>String\<close> can convert, and every
  \<open>maxBullets\<close> that is not negative, \<open>normalizeSummary\<close> returns, without throwing, a
  summary whose \<open>one_liner\<close> is non-empty and has at most 220 characters, whose
  \<open>key_points\<close> are at most \<open>maxBullets\<close> strings, each non-empty and trimmed, and whose
  \<open>who_should_watch\<close> is non-empty and has at most 180 characters; an absent or empty
  (falsy) \<open>one_liner\<close> or \<open>who_should_watch\<close> gives the fallback text.
\<close>

theorem normalizeSummary_well_formed:
  assumes "fieldsConvertible obj" and "0 \<le> maxBullets"
  shows "\<exists>s. normalizeSummary obj maxBullets = Inr s
           \<and> one_liner s \<noteq> [] \<and> length (one_liner s) \<le> 220
           \<and> int (length (key_points s)) \<le> maxBullets
           \<and> (\<forall>p \<in> set (key_points s). p \<noteq> [] \<and> trim p = p)
           \<and> who_should_watch s \<noteq> [] \<and> length (who_should_watch s) \<le> 180
           \<and> (\<not> truthy (getProp obj ''one_liner'') \<longrightarrow> one_liner s = ''Summary unavailable.'')
           \<and> (\<not> truthy (getProp obj ''who_should_watch'')
                 \<longrightarrow> who_should_watch s = ''Anyone who wants a neutral overview.'')"
proof -
  obtain s1 where s1: "jsToString (jsOr (getProp obj ''one_liner'') (JStr [])) = Inr s1"
    "\<not> truthy (getProp obj ''one_liner'') \<longrightarrow> s1 = []"
    using assms(1) jsOr_convert unfolding fieldsConvertible_def by blast
  obtain s2 where s2: "jsToString (jsOr (getProp obj ''who_should_watch'') (JStr [])) = Inr s2"
    "\<not> truthy (getProp obj ''who_should_watch'') \<longrightarrow> s2 = []"
    using assms(1) jsOr_convert unfolding fieldsConvertible_def by blast
  have "list_all convertible (case getProp obj ''key_points'' of JArr xs \<Rightarrow> xs | _ \<Rightarrow> [])"
    using assms(1) by (auto simp: fieldsConvertible_def split: jsval.splits)
  then obtain ps where ps:
    "mapE (\<lambda>x. case jsToString x of Inl e \<Rightarrow> Inl e | Inr s \<Rightarrow> Inr (trim s))
       (case getProp obj ''key_points'' of JArr xs \<Rightarrow> xs | _ \<Rightarrow> []) = Inr ps"
    "\<forall>p \<in> set ps. trim p = p"
    using mapE_points by blast
  let ?s = "\<lparr> one_liner = take 220 (if trim s1 \<noteq> [] then trim s1 else ''Summary unavailable.''),
              key_points = slice0 maxBullets (filter (\<lambda>p. p \<noteq> []) ps),
              who_should_watch = take 180 (if trim s2 \<noteq> [] then trim s2
                                           else ''Anyone who wants a neutral overview.'') \<rparr>"
  have r: "normalizeSummary obj maxBullets = Inr ?s"
    using s1(1) s2(1) ps(1) by (simp add: normalizeSummary_def)
  have k: "\<forall>p \<in> set (key_points ?s). p \<noteq> [] \<and> trim p = p"
    using ps(2) slice0_subset[of maxBullets "filter (\<lambda>p. p \<noteq> []) ps"] by auto
  have n: "int (length (key_points ?s)) \<le> maxBullets"
    using slice0_length[OF assms(2)] by simp
  have o: "one_liner ?s \<noteq> [] \<and> length (one_liner ?s) \<le> 220"
    by simp
  have w: "who_should_watch ?s \<noteq> [] \<and> length (who_should_watch ?s) \<le> 180"
    by simp
  have f1: "\<not> truthy (getProp obj ''one_liner'') \<longrightarrow> one_liner ?s = ''Summary unavailable.''"
    using s1(2) by (simp add: trim_def)
  have f2: "\<not> truthy (getProp obj ''who_should_watch'')
              \<longrightarrow> who_should_watch ?s = ''Anyone who wants a neutral overview.''"
    using s2(2) by (simp add: trim_def)
  show ?thesis
    using r k n o w f1 f2 by blast
qed

theorem normalizeSummary_well_formed_witness:
  "fieldsConvertible (JObj [(''one_liner'', JStr ''  A talk about tides. ''),
                            (''key_points'', JArr [JStr '' moon '', JStr ''  '', JNum 3, JNull])])
   \<and> (0::int) \<le> 2
   \<and> normalizeSummary (JObj [(''one_liner'', JStr ''  A talk about tides. ''),
                             (''key_points'', JArr [JStr '' moon '', JStr ''  '', JNum 3, JNull])]) 2
       = Inr \<lparr> one_liner = ''A talk about tides.'', key_points = [''moon'', ''3''],
               who_should_watch = ''Anyone who wants a neutral overview.'' \<rparr>"
proof -
  have c: "fieldsConvertible (JObj [(''one_liner'', JStr ''  A talk about tides. ''),
                            (''key_points'', JArr [JStr '' moon '', JStr ''  '', JNum 3, JNull])])"
    by code_simp
  have e: "normalizeSummary (JObj [(''one_liner'', JStr ''  A talk about tides. ''),
                             (''key_points'', JArr [JStr '' moon '', JStr ''  '', JNum 3, JNull])]) 2
       = Inr \<lparr> one_liner = ''A talk about tides.'', key_points = [''moon'', ''3''],
               who_should_watch = ''Anyone who wants a neutral overview.'' \<rparr>"
    by code_simp
  show ?thesis
    using c e normalizeSummary_well_formed[OF c, of 2] by simp
qed

text \<open>
  C2, as the claim states it, fails. \<open>String\<close> throws a \<open>TypeError\<close> on an object that
  has an own property \<open>toString\<close> (never callable in a value made by \<open>JSON.parse\<close>), and
  the normalizer does not catch it: \<open>normalizeSummary({one_liner: {toString: 1}}, 5)\<close>
  raises. And \<open>slice(0, maxBullets)\<close> with a negative bound counts from the end:
  \<open>normalizeSummary({key_points: ["a", "b"]}, -1)\<close> keeps one key point, more than the
  bound.
\<close>

theorem normalizeSummary_raises_counterexample:
  "normalizeSummary (JObj [(''one_liner'', JObj [(''toString'', JNum 1)])]) 5
     = Inl (Exn ''TypeError'' ''Cannot convert object to primitive value'')
   \<and> normalizeSummary (JObj [(''key_points'', JArr [JStr ''a'', JStr ''b''])]) (- 1)
       = Inr \<lparr> one_liner = ''Summary unavailable.'', key_points = [''a''],
               who_should_watch = ''Anyone who wants a neutral overview.'' \<rparr>
   \<and> \<not> int (length [''a'']) \<le> - 1"
  by code_simp

end
